theory Spec2Isabelle
  imports
    Complex_Main
    "HOL-Library.AList"
    "HOL-Library.Multiset"
    "HOL-Library.Char_ord"
    "HOL-Library.List_Lexorder"
    "HOL-Library.Product_Lexorder"
begin

section \<open>The inventory manager of \<^verbatim>\<open>app.py\<close>\<close>

text \<open>
  The development embeds the class \<^verbatim>\<open>InventoryManager\<close> of \<^verbatim>\<open>src/app.py\<close>:
  the dictionary \<^verbatim>\<open>self.items\<close>, the list \<^verbatim>\<open>self.low_stock_heap\<close> and the
  integer \<^verbatim>\<open>self.threshold\<close>, with the methods that read and write them.
  The Flask handlers only convert JSON and call these methods.
\<close>

subsection \<open>Data\<close>

text \<open>
  The value stored under a name is the dictionary
  \<^verbatim>\<open>{'quantity': quantity, 'price': price}\<close>. The quantity is a Python integer
  (unbounded). The price is a Python float that the class stores and returns and
  never computes with or compares; it is carried as a number.
  The dictionaries that \<^verbatim>\<open>get_low_stock_items\<close> returns have the additional
  key \<^verbatim>\<open>'name'\<close>.
\<close>

record item =
  quantity :: int
  price :: real

record item_row = item +
  name :: string

text \<open>
  A heap entry is the tuple \<^verbatim>\<open>(quantity, name)\<close>. Python compares tuples
  lexicographically, integers by value and strings by code point; this is the order
  of \<^typ>\<open>int \<times> string\<close> with the lexicographic orders on pairs and lists.
\<close>

type_synonym entry = "int \<times> string"

text \<open>
  A Python dictionary iterates in insertion order, assigning to an existing key keeps
  its position and assigning to a new key appends it: an association list with
  \<^const>\<open>AList.update\<close>, \<^const>\<open>AList.delete\<close> and \<^const>\<open>map_of\<close>.
\<close>

record inventory =
  items :: "(string \<times> item) list"
  low_stock_heap :: "entry list"
  threshold :: int

subsection \<open>The \<^verbatim>\<open>heapq\<close> module\<close>

text \<open>
  \<^verbatim>\<open>heapq\<close> belongs to the Python standard library, not to the repository. It is
  modelled by its documented contract: \<^verbatim>\<open>heappush\<close> adds an item, \<^verbatim>\<open>heappop\<close>
  removes and returns the smallest item and raises \<^verbatim>\<open>IndexError\<close> on the empty
  list (the value \<open>None\<close> here), \<^verbatim>\<open>heapify\<close> rearranges a list into a heap and
  keeps its items. The list holds the items of the heap; their layout inside the
  array, which the class never reads, is not modelled.
\<close>

definition heappush :: "entry list \<Rightarrow> entry \<Rightarrow> entry list" where
  "heappush heap x = heap @ [x]"

definition heappop :: "entry list \<Rightarrow> (entry \<times> entry list) option" where
  "heappop heap =
     (if heap = [] then None
      else Some (min_list heap, remove1 (min_list heap) heap))"

definition heapify :: "entry list \<Rightarrow> entry list" where
  "heapify x = x"

subsection \<open>The persistent store\<close>

text \<open>
  Every method opens a connection to the SQLite database, executes statements and
  commits. Each of these calls either returns or raises; what it does is decided
  outside the class, so the store is a parameter of every method: it tells for each
  call whether it raises, and which exception. \<^verbatim>\<open>sqlite3.IntegrityError\<close> is the
  one exception that the class catches (in \<^verbatim>\<open>add_item\<close>).
\<close>

datatype store_error = IntegrityError | OperationalError

datatype store_call =
    Connect
  | InsertItem string int real
  | UpdateQuantity int string
  | UpdatePrice real string
  | DeleteItem string
  | UpdateSetting int
  | Commit

type_synonym store = "store_call \<Rightarrow> store_error option"

text \<open>The first exception raised by a sequence of store calls, if any.\<close>

fun first_error :: "store \<Rightarrow> store_call list \<Rightarrow> store_error option" where
  "first_error db [] = None"
| "first_error db (c # cs) =
     (case db c of Some e \<Rightarrow> Some e | None \<Rightarrow> first_error db cs)"

text \<open>A store on which every call returns.\<close>

definition store_ok :: store where
  "store_ok c = None"

subsection \<open>The methods of \<^verbatim>\<open>InventoryManager\<close>\<close>

text \<open>
  A method returns its result and the state of the object after the call. The result
  is \<open>Inl e\<close> when the exception \<open>e\<close> leaves the method, and \<open>Inr\<close> of the returned
  value otherwise. The object outlives an exception, so a state is returned in both
  cases.
\<close>

text \<open>\<^verbatim>\<open>_rebuild_heap\<close> (lines 185 to 189).\<close>

definition rebuild_heap :: "inventory \<Rightarrow> inventory" where
  "rebuild_heap S =
     S\<lparr>low_stock_heap :=
         fold (\<lambda>(n, d) heap.
                 if quantity d < threshold S then heappush heap (quantity d, n) else heap)
              (items S) []\<rparr>"

text \<open>
  \<^verbatim>\<open>load_items\<close> (lines 46 to 68). The rows of the table \<^verbatim>\<open>items\<close> and the value
  of the setting \<^verbatim>\<open>low_stock_threshold\<close> (already converted by \<^verbatim>\<open>int\<close>; \<open>None\<close>
  when the row is missing) are what the two \<^verbatim>\<open>SELECT\<close> statements return.
\<close>

definition load_step :: "int \<Rightarrow> string \<times> int \<times> real \<Rightarrow> inventory \<Rightarrow> inventory" where
  "load_step t row S =
     (case row of (n, q, p) \<Rightarrow>
        let S1 = S\<lparr>items := AList.update n \<lparr>quantity = q, price = p\<rparr> (items S)\<rparr>
        in if q < t then S1\<lparr>low_stock_heap := heappush (low_stock_heap S1) (q, n)\<rparr> else S1)"

definition load_items ::
  "(string \<times> int \<times> real) list \<Rightarrow> int option \<Rightarrow> inventory \<Rightarrow> inventory" where
  "load_items rows threshold_row S =
     (let t = (case threshold_row of Some v \<Rightarrow> v | None \<Rightarrow> threshold S)
      in fold (load_step t) rows \<lparr>items = [], low_stock_heap = [], threshold = t\<rparr>)"

text \<open>\<^verbatim>\<open>__init__\<close> (lines 15 to 20) for a database that can be read.\<close>

definition init :: "(string \<times> int \<times> real) list \<Rightarrow> int option \<Rightarrow> inventory" where
  "init rows threshold_row =
     load_items rows threshold_row \<lparr>items = [], low_stock_heap = [], threshold = 10\<rparr>"

text \<open>
  \<^verbatim>\<open>add_item\<close> (lines 70 to 93). The connection is opened before the \<^verbatim>\<open>try\<close>;
  the \<^verbatim>\<open>INSERT\<close> and the commit are inside it.
\<close>

definition add_item ::
  "store \<Rightarrow> string \<Rightarrow> int \<Rightarrow> real \<Rightarrow> inventory \<Rightarrow> (store_error + bool \<times> string) \<times> inventory" where
  "add_item db n q p S =
     (if map_of (items S) n \<noteq> None then (Inr (False, ''Item already exists''), S)
      else case db Connect of
        Some e \<Rightarrow> (Inl e, S)
      | None \<Rightarrow>
         (case first_error db [InsertItem n q p, Commit] of
            Some IntegrityError \<Rightarrow> (Inr (False, ''Item already exists''), S)
          | Some OperationalError \<Rightarrow> (Inl OperationalError, S)
          | None \<Rightarrow>
              let S1 = S\<lparr>items := AList.update n \<lparr>quantity = q, price = p\<rparr> (items S)\<rparr>;
                  S2 = (if q < threshold S1
                        then S1\<lparr>low_stock_heap := heappush (low_stock_heap S1) (q, n)\<rparr>
                        else S1)
              in (Inr (True, ''Item added successfully''), S2)))"

text \<open>
  \<^verbatim>\<open>update_item\<close> (lines 95 to 117). Each provided field is written to
  \<^verbatim>\<open>self.items\<close> first and to the store next; the commit and the rebuild follow.
\<close>

definition update_item ::
  "store \<Rightarrow> string \<Rightarrow> int option \<Rightarrow> real option \<Rightarrow> inventory
     \<Rightarrow> (store_error + bool \<times> string) \<times> inventory" where
  "update_item db n quantity_arg price_arg S =
     (if map_of (items S) n = None then (Inr (False, ''Item not found''), S)
      else case db Connect of
        Some e \<Rightarrow> (Inl e, S)
      | None \<Rightarrow>
         (case (case quantity_arg of
                  None \<Rightarrow> (None, S)
                | Some q \<Rightarrow>
                    (db (UpdateQuantity q n),
                     S\<lparr>items := AList.map_entry n (\<lambda>d. d\<lparr>quantity := q\<rparr>) (items S)\<rparr>)) of
            (Some e, S1) \<Rightarrow> (Inl e, S1)
          | (None, S1) \<Rightarrow>
             (case (case price_arg of
                      None \<Rightarrow> (None, S1)
                    | Some p \<Rightarrow>
                        (db (UpdatePrice p n),
                         S1\<lparr>items := AList.map_entry n (\<lambda>d. d\<lparr>price := p\<rparr>) (items S1)\<rparr>)) of
                (Some e, S2) \<Rightarrow> (Inl e, S2)
              | (None, S2) \<Rightarrow>
                 (case db Commit of
                    Some e \<Rightarrow> (Inl e, S2)
                  | None \<Rightarrow> (Inr (True, ''Item updated successfully''), rebuild_heap S2)))))"

text \<open>\<^verbatim>\<open>delete_item\<close> (lines 119 to 132).\<close>

definition delete_item ::
  "store \<Rightarrow> string \<Rightarrow> inventory \<Rightarrow> (store_error + bool \<times> string) \<times> inventory" where
  "delete_item db n S =
     (if map_of (items S) n = None then (Inr (False, ''Item not found''), S)
      else case first_error db [Connect, DeleteItem n, Commit] of
        Some e \<Rightarrow> (Inl e, S)
      | None \<Rightarrow>
          (Inr (True, ''Item deleted successfully''),
           rebuild_heap (S\<lparr>items := AList.delete n (items S)\<rparr>)))"

text \<open>
  \<^verbatim>\<open>set_threshold\<close> (lines 175 to 183). The assignment to \<^verbatim>\<open>self.threshold\<close> is
  the first statement.
\<close>

definition set_threshold ::
  "store \<Rightarrow> int \<Rightarrow> inventory \<Rightarrow> (store_error + unit) \<times> inventory" where
  "set_threshold db t S =
     (let S1 = S\<lparr>threshold := t\<rparr>
      in case first_error db [Connect, UpdateSetting t, Commit] of
           Some e \<Rightarrow> (Inl e, S1)
         | None \<Rightarrow> (Inr (), rebuild_heap S1))"

text \<open>
  \<^verbatim>\<open>get_low_stock_items\<close> (lines 144 to 161). The loop pops
  \<^verbatim>\<open>self.low_stock_heap\<close> until it is empty; \<open>heappop\<close> is \<open>None\<close> exactly on the
  empty list, so the loop test and the pop are one case distinction. The loop
  carries the object and the two local lists.
\<close>

function drain ::
  "inventory \<Rightarrow> item_row list \<Rightarrow> entry list \<Rightarrow> inventory \<times> item_row list \<times> entry list" where
  "drain S low_stock temp_heap =
     (case heappop (low_stock_heap S) of
        None \<Rightarrow> (S, low_stock, temp_heap)
      | Some ((q, n), heap') \<Rightarrow>
          let S1 = S\<lparr>low_stock_heap := heap'\<rparr>
          in (case map_of (items S1) n of
                None \<Rightarrow> drain S1 low_stock temp_heap
              | Some d \<Rightarrow>
                  if quantity d < threshold S1
                  then drain S1
                         (low_stock @ [\<lparr>quantity = quantity d, price = price d, name = n\<rparr>])
                         (temp_heap @ [(quantity d, n)])
                  else drain S1 low_stock temp_heap))"
  by pat_completeness auto
termination
proof -
  have pop_shorter: "length heap' < length heap"
    if "heappop heap = Some (x, heap')" for heap heap' :: "entry list" and x
  proof -
    from that have ne: "heap \<noteq> []" and x: "x = min_list heap" and h: "heap' = remove1 x heap"
      by (auto simp: heappop_def split: if_splits)
    from ne x have "x \<in> set heap"
      using min_list_Min [of heap] Min_in [of "set heap"] by simp
    with ne h show ?thesis
      by (simp add: length_remove1)
  qed
  show ?thesis
    by (relation "measure (\<lambda>(S, low_stock, temp_heap). length (low_stock_heap S))")
       (auto dest: pop_shorter)
qed

definition get_low_stock_items :: "inventory \<Rightarrow> item_row list \<times> inventory" where
  "get_low_stock_items S =
     (case drain S [] [] of
        (S1, low_stock, temp_heap) \<Rightarrow>
          (low_stock, S1\<lparr>low_stock_heap := heapify temp_heap\<rparr>))"

subsection \<open>Reachable states\<close>

text \<open>
  The object is created by \<^verbatim>\<open>__init__\<close> from the rows of the table, whose names are
  distinct (the column is declared \<^verbatim>\<open>UNIQUE\<close>, line 28), and is then changed by the
  public methods. The object outlives an exception that leaves a method, so the state
  after a call is reachable whether the call returns or raises.
\<close>

inductive reachable :: "inventory \<Rightarrow> bool" where
  reachable_init:
    "distinct (map fst rows) \<Longrightarrow> reachable (init rows threshold_row)"
| reachable_add:
    "reachable S \<Longrightarrow> add_item db n q p S = (r, S') \<Longrightarrow> reachable S'"
| reachable_update:
    "reachable S \<Longrightarrow> update_item db n quantity_arg price_arg S = (r, S') \<Longrightarrow> reachable S'"
| reachable_delete:
    "reachable S \<Longrightarrow> delete_item db n S = (r, S') \<Longrightarrow> reachable S'"
| reachable_threshold:
    "reachable S \<Longrightarrow> set_threshold db t S = (u, S') \<Longrightarrow> reachable S'"
| reachable_list:
    "reachable S \<Longrightarrow> get_low_stock_items S = (low_stock, S') \<Longrightarrow> reachable S'"

text \<open>
  What one iteration of the loop of \<^verbatim>\<open>get_low_stock_items\<close> appends to
  \<^verbatim>\<open>low_stock\<close> and to \<^verbatim>\<open>temp_heap\<close> for the popped entry.
\<close>

definition emit :: "inventory \<Rightarrow> entry \<Rightarrow> (item_row \<times> entry) list" where
  "emit S e =
     (case map_of (items S) (snd e) of
        None \<Rightarrow> []
      | Some d \<Rightarrow>
          if quantity d < threshold S
          then [(\<lparr>quantity = quantity d, price = price d, name = snd e\<rparr>, (quantity d, snd e))]
          else [])"

text \<open>The entries of the items below the threshold, in the order of \<^verbatim>\<open>self.items\<close>.\<close>

definition low_entries :: "inventory \<Rightarrow> entry list" where
  "low_entries S =
     map (\<lambda>(n, d). (quantity d, n)) (filter (\<lambda>(n, d). quantity d < threshold S) (items S))"

text \<open>
  A state is consistent when its names are distinct and its heap holds one entry, with
  the live quantity, for each item below the threshold, and nothing else.
\<close>

definition consistent :: "inventory \<Rightarrow> bool" where
  "consistent S \<longleftrightarrow> distinct (map fst (items S)) \<and> mset (low_stock_heap S) = mset (low_entries S)"

subsection \<open>The read algorithm as the specification words it\<close>

text \<open>
  The specification describes the loop of \<^verbatim>\<open>get_low_stock_items\<close> under the name
  \<open>drainValid\<close>: an extracted entry \<open>(quantity, name)\<close> is valid only if the name
  is in the index and the quantity of the entry equals the live quantity and the live
  quantity is below the threshold. The two definitions below follow these words, for
  comparison with \<^const>\<open>emit\<close> and \<^const>\<open>get_low_stock_items\<close>.
\<close>

definition emit_spec :: "inventory \<Rightarrow> entry \<Rightarrow> (item_row \<times> entry) list" where
  "emit_spec S e =
     (case map_of (items S) (snd e) of
        None \<Rightarrow> []
      | Some d \<Rightarrow>
          if quantity d = fst e \<and> quantity d < threshold S
          then [(\<lparr>quantity = quantity d, price = price d, name = snd e\<rparr>, (quantity d, snd e))]
          else [])"

definition drainValid_spec :: "inventory \<Rightarrow> item_row list \<times> inventory" where
  "drainValid_spec S =
     (map fst (concat (map (emit_spec S) (sort (low_stock_heap S)))),
      S\<lparr>low_stock_heap := map snd (concat (map (emit_spec S) (sort (low_stock_heap S))))\<rparr>)"

subsection \<open>Concrete stores and states\<close>

text \<open>A store on which every call raises, and one on which only the update of a quantity raises.\<close>

definition store_down :: store where
  "store_down c = Some OperationalError"

definition store_update_fails :: store where
  "store_update_fails c = (case c of UpdateQuantity q n \<Rightarrow> Some OperationalError | _ \<Rightarrow> None)"

text \<open>The object after \<^verbatim>\<open>add_item("bolt", 5, 0.10)\<close> on an empty database.\<close>

definition bolt_state :: inventory where
  "bolt_state =
     \<lparr>items = [(''bolt'', \<lparr>quantity = 5, price = 1 / 10\<rparr>)],
      low_stock_heap = [(5, ''bolt'')],
      threshold = 10\<rparr>"

text \<open>The same object with the live quantity 7 and the heap entry still at 5.\<close>

definition stale_state :: inventory where
  "stale_state =
     \<lparr>items = [(''bolt'', \<lparr>quantity = 7, price = 1 / 10\<rparr>)],
      low_stock_heap = [(5, ''bolt'')],
      threshold = 10\<rparr>"

text \<open>Three items, two of them below the threshold with the same quantity.\<close>

definition demo_state :: inventory where
  "demo_state =
     \<lparr>items = [(''bolt'', \<lparr>quantity = 5, price = 1 / 10\<rparr>),
               (''anchor'', \<lparr>quantity = 5, price = 1 / 5\<rparr>),
               (''washer'', \<lparr>quantity = 50, price = 1\<rparr>)],
      low_stock_heap = [(5, ''bolt''), (5, ''anchor'')],
      threshold = 10\<rparr>"

text \<open>
  The state \<^const>\<open>demo_state\<close> after an \<^verbatim>\<open>update_item("washer", quantity=3)\<close> whose
  \<^verbatim>\<open>UPDATE\<close> raised: the new quantity is in the items, the heap is the old one.
\<close>

definition hidden_state :: inventory where
  "hidden_state =
     \<lparr>items = [(''bolt'', \<lparr>quantity = 5, price = 1 / 10\<rparr>),
               (''anchor'', \<lparr>quantity = 5, price = 1 / 5\<rparr>),
               (''washer'', \<lparr>quantity = 3, price = 1\<rparr>)],
      low_stock_heap = [(5, ''bolt''), (5, ''anchor'')],
      threshold = 10\<rparr>"

text \<open>
  The object after \<^verbatim>\<open>add_item("anchor", 1, 0.20)\<close> and \<^verbatim>\<open>add_item("bolt", 5, 0.10)\<close>
  on an empty database, and the same object after an
  \<^verbatim>\<open>update_item("anchor", quantity=8)\<close> whose \<^verbatim>\<open>UPDATE\<close> raised.
\<close>

definition pair_state :: inventory where
  "pair_state =
     \<lparr>items = [(''anchor'', \<lparr>quantity = 1, price = 1 / 5\<rparr>),
               (''bolt'', \<lparr>quantity = 5, price = 1 / 10\<rparr>)],
      low_stock_heap = [(1, ''anchor''), (5, ''bolt'')],
      threshold = 10\<rparr>"

definition unordered_state :: inventory where
  "unordered_state =
     \<lparr>items = [(''anchor'', \<lparr>quantity = 8, price = 1 / 5\<rparr>),
               (''bolt'', \<lparr>quantity = 5, price = 1 / 10\<rparr>)],
      low_stock_heap = [(1, ''anchor''), (5, ''bolt'')],
      threshold = 10\<rparr>"

section \<open>Properties\<close>

subsection \<open>The heap and the loop\<close>

declare drain.simps [simp del]

lemma heappop_None [simp]: "heappop heap = None \<longleftrightarrow> heap = []"
  by (simp add: heappop_def)

lemma heappop_sort:
  assumes "heappop heap = Some (x, heap')"
  shows "sort heap = x # sort heap'"
proof -
  from assms have ne: "heap \<noteq> []" and x: "x = min_list heap" and h: "heap' = remove1 x heap"
    by (auto simp: heappop_def split: if_splits)
  from ne x have xmin: "x = Min (set heap)"
    by (simp add: min_list_Min)
  with ne have mem: "x \<in> set heap"
    using Min_in [of "set heap"] by simp
  have "mset (x # sort heap') = mset heap"
    using mem h by simp
  moreover have "sorted (x # sort heap')"
  proof -
    have "x \<le> y" if "y \<in> set heap'" for y
    proof -
      from that h have "y \<in> set heap"
        using set_remove1_subset [of x heap] by auto
      then show ?thesis
        using xmin by simp
    qed
    then show ?thesis by simp
  qed
  ultimately show ?thesis
    by (rule properties_for_sort)
qed

lemma emit_heap [simp]: "emit (S\<lparr>low_stock_heap := h\<rparr>) = emit S"
  by (simp add: emit_def fun_eq_iff split: option.splits)

lemma drain_eq:
  "drain S low_stock temp_heap =
     (S\<lparr>low_stock_heap := []\<rparr>,
      low_stock @ map fst (concat (map (emit S) (sort (low_stock_heap S)))),
      temp_heap @ map snd (concat (map (emit S) (sort (low_stock_heap S)))))"
proof (induction S low_stock temp_heap rule: drain.induct)
  case (1 S low_stock temp_heap)
  show ?case
  proof (cases "heappop (low_stock_heap S)")
    case None
    then have e: "low_stock_heap S = []"
      by simp
    then have "S\<lparr>low_stock_heap := []\<rparr> = S"
      by (cases S) simp
    moreover have "drain S low_stock temp_heap = (S, low_stock, temp_heap)"
      by (subst drain.simps) (simp add: None)
    ultimately show ?thesis
      using e by simp
  next
    case (Some a)
    obtain q n heap' where a: "a = ((q, n), heap')"
      by (metis prod.collapse)
    note pop = Some [unfolded a]
    note srt = heappop_sort [OF pop]
    let ?S1 = "S\<lparr>low_stock_heap := heap'\<rparr>"
    show ?thesis
    proof (cases "map_of (items S) n")
      case None
      then have "map_of (items ?S1) n = None"
        by simp
      note IH = "1.IH"(1) [OF pop refl refl refl this]
      have "drain S low_stock temp_heap = drain ?S1 low_stock temp_heap"
        by (subst drain.simps) (simp add: pop None)
      moreover have "emit S (q, n) = []"
        by (simp add: emit_def None)
      ultimately show ?thesis
        using IH srt by simp
    next
      case (Some d)
      then have d: "map_of (items ?S1) n = Some d"
        by simp
      show ?thesis
      proof (cases "quantity d < threshold S")
        case True
        then have "quantity d < threshold ?S1"
          by simp
        note IH = "1.IH"(2) [OF pop refl refl refl d this]
        have "drain S low_stock temp_heap =
                drain ?S1 (low_stock @ [\<lparr>quantity = quantity d, price = price d, name = n\<rparr>])
                  (temp_heap @ [(quantity d, n)])"
          by (subst drain.simps) (simp add: pop Some True)
        moreover have "emit S (q, n) =
                [(\<lparr>quantity = quantity d, price = price d, name = n\<rparr>, (quantity d, n))]"
          by (simp add: emit_def Some True)
        ultimately show ?thesis
          using IH srt by simp
      next
        case False
        then have "\<not> quantity d < threshold ?S1"
          by simp
        note IH = "1.IH"(3) [OF pop refl refl refl d this]
        have "drain S low_stock temp_heap = drain ?S1 low_stock temp_heap"
          by (subst drain.simps) (simp add: pop Some False)
        moreover have "emit S (q, n) = []"
          by (simp add: emit_def Some False)
        ultimately show ?thesis
          using IH srt by simp
      qed
    qed
  qed
qed

subsection \<open>Consistent states\<close>

text \<open>
  \<^verbatim>\<open>__init__\<close> yields a consistent state, and every call keeps a consistent state
  consistent, except an \<^verbatim>\<open>update_item\<close> or a \<^verbatim>\<open>set_threshold\<close> that raises.
\<close>

lemma update_new: "map_of al k = None \<Longrightarrow> AList.update k v al = al @ [(k, v)]"
  by (induction al) (auto split: if_splits)

lemma map_entry_keys: "map fst (AList.map_entry k f al) = map fst al"
  by (induction al) auto

lemma fold_push:
  "fold (\<lambda>(n, d) heap. if quantity d < t then heappush heap (quantity d, n) else heap) al acc =
     acc @ map (\<lambda>(n, d). (quantity d, n)) (filter (\<lambda>(n, d). quantity d < t) al)"
  by (induction al arbitrary: acc) (auto simp: heappush_def)

lemma rebuild_heap_eq: "rebuild_heap S = S\<lparr>low_stock_heap := low_entries S\<rparr>"
  by (simp add: rebuild_heap_def low_entries_def fold_push)

lemma low_entries_heap [simp]: "low_entries (S\<lparr>low_stock_heap := h\<rparr>) = low_entries S"
  by (simp add: low_entries_def)

lemma inv_rebuild: "distinct (map fst (items S)) \<Longrightarrow> consistent (rebuild_heap S)"
  by (simp add: consistent_def rebuild_heap_eq)

lemma inv_insert:
  assumes "consistent S" and "map_of (items S) n = None"
  shows "consistent (let S1 = S\<lparr>items := AList.update n \<lparr>quantity = q, price = p\<rparr> (items S)\<rparr>
              in if q < threshold S1
                 then S1\<lparr>low_stock_heap := heappush (low_stock_heap S1) (q, n)\<rparr> else S1)"
  using assms
  by (auto simp: consistent_def Let_def update_new heappush_def low_entries_def map_of_eq_None_iff)

lemma load_step_eq:
  "load_step t (n, q, p) S =
    (let S1 = S\<lparr>items := AList.update n \<lparr>quantity = q, price = p\<rparr> (items S)\<rparr>
              in if q < t
                 then S1\<lparr>low_stock_heap := heappush (low_stock_heap S1) (q, n)\<rparr> else S1)"
  by (simp add: load_step_def)

lemma load_step_frame:
  "threshold (load_step t row S) = threshold S"
  "fst ` set (items (load_step t row S)) = insert (fst row) (fst ` set (items S))"
  by (cases row; simp add: load_step_def Let_def AList.dom_update)+

lemma inv_fold_load:
  assumes "consistent S" and "threshold S = t" and "distinct (map fst rows)"
    and "fst ` set rows \<inter> fst ` set (items S) = {}"
  shows "consistent (fold (load_step t) rows S)"
  using assms
proof (induction rows arbitrary: S)
  case Nil
  then show ?case by simp
next
  case (Cons row rows)
  obtain n q p where row: "row = (n, q, p)"
    by (cases row) auto
  from Cons.prems have new: "map_of (items S) n = None"
    by (auto simp: row map_of_eq_None_iff)
  have "consistent (load_step t row S)"
    using inv_insert [OF Cons.prems(1) new, of q p] Cons.prems(2)
    by (simp add: row load_step_eq)
  moreover have "threshold (load_step t row S) = t"
    using Cons.prems(2) by (simp add: load_step_frame)
  moreover have "distinct (map fst rows)"
    using Cons.prems(3) by simp
  moreover have "fst ` set rows \<inter> fst ` set (items (load_step t row S)) = {}"
    using Cons.prems(3,4) by (auto simp: load_step_frame row)
  ultimately show ?case
    using Cons.IH by simp
qed

lemma inv_init: "distinct (map fst rows) \<Longrightarrow> consistent (init rows threshold_row)"
  unfolding init_def load_items_def Let_def
  by (rule inv_fold_load) (simp_all add: consistent_def low_entries_def)

lemma get_low_stock_items_eq:
  "get_low_stock_items S =
     (map fst (concat (map (emit S) (sort (low_stock_heap S)))),
      S\<lparr>low_stock_heap := map snd (concat (map (emit S) (sort (low_stock_heap S))))\<rparr>)"
  by (simp add: get_low_stock_items_def drain_eq heapify_def)

lemma emit_D:
  assumes "(r, e) \<in> set (emit S e')"
  shows "\<exists>d. map_of (items S) (snd e') = Some d \<and> quantity d < threshold S \<and>
           r = \<lparr>quantity = quantity d, price = price d, name = snd e'\<rparr> \<and>
           e = (quantity d, snd e')"
proof (cases "map_of (items S) (snd e')")
  case None
  with assms show ?thesis
    by (simp add: emit_def)
next
  case (Some d)
  with assms have "quantity d < threshold S"
    and "r = \<lparr>quantity = quantity d, price = price d, name = snd e'\<rparr>"
    and "e = (quantity d, snd e')"
    by (simp_all add: emit_def split: if_splits)
  with Some show ?thesis
    by blast
qed

lemma low_entries_iff:
  assumes "distinct (map fst (items S))"
  shows "(q, n) \<in> set (low_entries S) \<longleftrightarrow>
           (\<exists>d. map_of (items S) n = Some d \<and> quantity d = q \<and> q < threshold S)"
  using assms by (auto simp: low_entries_def)

lemma emit_fresh:
  assumes "consistent S" and "e \<in> set (low_stock_heap S)"
  shows "\<exists>r. emit S e = [(r, e)]"
proof -
  obtain q n where e: "e = (q, n)"
    by (cases e) auto
  from assms have "(q, n) \<in> set (low_entries S)"
    unfolding consistent_def e by (metis set_mset_mset)
  with assms(1) obtain d where "map_of (items S) n = Some d" "quantity d = q" "q < threshold S"
    by (auto simp: consistent_def low_entries_iff)
  then show ?thesis
    by (simp add: emit_def e)
qed

lemma concat_emit_fresh:
  assumes "\<And>e. e \<in> set es \<Longrightarrow> \<exists>r. emit S e = [(r, e)]"
  shows "map snd (concat (map (emit S) es)) = es"
  using assms
proof (induction es)
  case Nil
  then show ?case by simp
next
  case (Cons e es)
  from Cons.prems [of e] obtain r where "emit S e = [(r, e)]"
    by auto
  with Cons show ?case
    by simp
qed

lemma temp_heap_fresh:
  assumes "consistent S"
  shows "map snd (concat (map (emit S) (sort (low_stock_heap S)))) = sort (low_stock_heap S)"
  by (rule concat_emit_fresh) (simp add: emit_fresh [OF assms])

lemma inv_get_low_stock_items:
  assumes "consistent S"
  shows "consistent (snd (get_low_stock_items S))"
  using assms by (simp add: get_low_stock_items_eq temp_heap_fresh) (simp add: consistent_def)

lemma inv_add_item:
  assumes "consistent S" and "add_item db n q p S = (r, S')"
  shows "consistent S'"
proof (cases "S' = S")
  case True
  with assms show ?thesis by simp
next
  case False
  with assms(2) have new: "map_of (items S) n = None"
    and S': "S' = (if q < threshold S
                   then S\<lparr>items := AList.update n \<lparr>quantity = q, price = p\<rparr> (items S),
                          low_stock_heap := heappush (low_stock_heap S) (q, n)\<rparr>
                   else S\<lparr>items := AList.update n \<lparr>quantity = q, price = p\<rparr> (items S)\<rparr>)"
    by (auto simp: add_item_def Let_def split: if_splits option.splits store_error.splits)
  show ?thesis
    using inv_insert [OF assms(1) new, of q p] by (simp add: S' Let_def split: if_splits)
qed

lemma inv_update_item:
  assumes "consistent S" and "update_item db n qa pa S = (Inr r, S')"
  shows "consistent S'"
proof (cases "S' = S")
  case True
  with assms show ?thesis by simp
next
  case False
  with assms(2) obtain S2 where S': "S' = rebuild_heap S2"
    and keys: "map fst (items S2) = map fst (items S)"
    by (auto simp: update_item_def map_entry_keys split: if_splits option.splits)
  from assms(1) keys have "distinct (map fst (items S2))"
    by (simp add: consistent_def)
  then show ?thesis
    unfolding S' by (rule inv_rebuild)
qed

lemma inv_delete_item:
  assumes "consistent S" and "delete_item db n S = (r, S')"
  shows "consistent S'"
proof (cases "S' = S")
  case True
  with assms show ?thesis by simp
next
  case False
  with assms(2) have "S' = rebuild_heap (S\<lparr>items := AList.delete n (items S)\<rparr>)"
    by (auto simp: delete_item_def split: if_splits option.splits)
  moreover have "distinct (map fst (AList.delete n (items S)))"
    using assms(1) by (simp add: consistent_def AList.distinct_delete)
  ultimately show ?thesis
    by (simp add: inv_rebuild)
qed

lemma inv_set_threshold:
  assumes "consistent S" and "set_threshold db t S = (Inr u, S')"
  shows "consistent S'"
proof -
  from assms(2) have "S' = rebuild_heap (S\<lparr>threshold := t\<rparr>)"
    by (auto simp: set_threshold_def Let_def split: option.splits)
  moreover have "distinct (map fst (items (S\<lparr>threshold := t\<rparr>)))"
    using assms(1) by (simp add: consistent_def)
  ultimately show ?thesis
    by (simp only: inv_rebuild)
qed

subsection \<open>The read on a consistent state\<close>

text \<open>
  On a consistent state the read returns exactly the items below the threshold, each
  once, in ascending order of quantity and then name, and a second read returns the
  same list.
\<close>

lemma emit_key1:
  "map (\<lambda>r. (quantity r, name r)) (map fst (emit S e)) = map snd (emit S e)"
  by (cases "map_of (items S) (snd e)") (simp_all add: emit_def)

lemma emit_key:
  "map (\<lambda>r. (quantity r, name r)) (map fst (concat (map (emit S) es))) =
     map snd (concat (map (emit S) es))"
proof (induction es)
  case Nil
  then show ?case by simp
next
  case (Cons e es)
  then show ?case
    using emit_key1 [of S e] by simp
qed

lemma low_stock_keys:
  assumes "consistent S"
  shows "map (\<lambda>r. (quantity r, name r)) (fst (get_low_stock_items S)) = sort (low_stock_heap S)"
proof -
  have "fst (get_low_stock_items S) = map fst (concat (map (emit S) (sort (low_stock_heap S))))"
    by (simp add: get_low_stock_items_eq)
  then show ?thesis
    by (simp only: emit_key temp_heap_fresh [OF assms])
qed

lemma low_stock_heap_after:
  assumes "consistent S"
  shows "snd (get_low_stock_items S) = S\<lparr>low_stock_heap := sort (low_stock_heap S)\<rparr>"
  by (simp add: get_low_stock_items_eq temp_heap_fresh [OF assms])

lemma low_stock_member:
  assumes "r \<in> set (fst (get_low_stock_items S))"
  shows "\<exists>d. map_of (items S) (name r) = Some d \<and> quantity d < threshold S \<and>
           r = \<lparr>quantity = quantity d, price = price d, name = name r\<rparr>"
proof -
  from assms obtain e e' where "(r, e) \<in> set (emit S e')"
    by (auto simp: get_low_stock_items_eq)
  from emit_D [OF this] show ?thesis
    by auto
qed

lemma distinct_low_entries:
  assumes "distinct (map fst (items S))"
  shows "distinct (map snd (low_entries S))"
proof -
  have "map snd (low_entries S) = map fst (filter (\<lambda>(n, d). quantity d < threshold S) (items S))"
    by (simp add: low_entries_def case_prod_unfold)
  with assms show ?thesis
    by (simp add: distinct_map_filter)
qed

lemma inv_distinct_heap:
  assumes "consistent S"
  shows "distinct (map snd (sort (low_stock_heap S)))"
proof -
  have "mset (map snd (sort (low_stock_heap S))) = mset (map snd (low_entries S))"
    using assms by (simp add: consistent_def)
  moreover have "distinct (map snd (low_entries S))"
    using assms by (simp add: consistent_def distinct_low_entries)
  ultimately show ?thesis
    by (metis mset_eq_imp_distinct_iff)
qed

lemma low_stock_names:
  assumes "consistent S"
  shows "map name (fst (get_low_stock_items S)) = map snd (sort (low_stock_heap S))"
proof -
  have "map name (fst (get_low_stock_items S)) =
          map snd (map (\<lambda>r. (quantity r, name r)) (fst (get_low_stock_items S)))"
    by (simp add: comp_def)
  then show ?thesis
    by (simp only: low_stock_keys [OF assms])
qed

lemma low_stock_complete:
  assumes "consistent S" and "map_of (items S) n = Some d" and "quantity d < threshold S"
  shows "(quantity d, n) \<in> set (low_stock_heap S)"
    and "\<lparr>quantity = quantity d, price = price d, name = n\<rparr> \<in> set (fst (get_low_stock_items S))"
proof -
  from assms have "(quantity d, n) \<in> set (low_entries S)"
    by (auto simp: consistent_def low_entries_iff)
  with assms(1) show in_heap: "(quantity d, n) \<in> set (low_stock_heap S)"
    unfolding consistent_def by (metis set_mset_mset)
  then have "(quantity d, n) \<in> set (map (\<lambda>r. (quantity r, name r)) (fst (get_low_stock_items S)))"
    by (simp add: low_stock_keys [OF assms(1)])
  then obtain r where r: "r \<in> set (fst (get_low_stock_items S))" and "name r = n"
    by auto
  with low_stock_member [OF r] assms(2)
  show "\<lparr>quantity = quantity d, price = price d, name = n\<rparr> \<in> set (fst (get_low_stock_items S))"
    by auto
qed

lemma low_stock_set:
  assumes "consistent S"
  shows "set (fst (get_low_stock_items S)) =
           {\<lparr>quantity = quantity d, price = price d, name = n\<rparr> | n d.
              map_of (items S) n = Some d \<and> quantity d < threshold S}"
    (is "?L = ?R")
proof
  show "?L \<subseteq> ?R"
    using low_stock_member [of _ S] by blast
  show "?R \<subseteq> ?L"
    using low_stock_complete(2) [OF assms] by blast
qed

lemma sorted_distinct_keys:
  fixes es :: "entry list"
  assumes "sorted es" and "distinct (map snd es)"
  shows "sorted_wrt (\<lambda>a b. fst a < fst b \<or> (fst a = fst b \<and> snd a < snd b)) es"
  using assms
proof (induction es)
  case Nil
  then show ?case by simp
next
  case (Cons e es)
  have "fst e < fst b \<or> (fst e = fst b \<and> snd e < snd b)" if "b \<in> set es" for b
  proof -
    from that Cons.prems have "e \<le> b" and "snd e \<noteq> snd b"
      by auto
    then show ?thesis
      by (auto simp: less_eq_prod_def)
  qed
  with Cons show ?case
    by simp
qed

lemma low_stock_sorted:
  assumes "consistent S"
  shows "sorted_wrt (\<lambda>r r'. quantity r < quantity r' \<or> (quantity r = quantity r' \<and> name r < name r'))
           (fst (get_low_stock_items S))"
proof -
  have "sorted_wrt (\<lambda>a b. fst a < fst b \<or> (fst a = fst b \<and> snd a < snd b))
          (map (\<lambda>r. (quantity r, name r)) (fst (get_low_stock_items S)))"
    unfolding low_stock_keys [OF assms]
    by (rule sorted_distinct_keys) (simp_all add: inv_distinct_heap [OF assms])
  then show ?thesis
    by (simp add: sorted_wrt_map)
qed

lemma low_stock_twice:
  assumes "consistent S"
  shows "fst (get_low_stock_items (snd (get_low_stock_items S))) = fst (get_low_stock_items S)"
proof -
  let ?S1 = "S\<lparr>low_stock_heap := sort (low_stock_heap S)\<rparr>"
  have "fst (get_low_stock_items ?S1) =
          map fst (concat (map (emit S) (sort (sort (low_stock_heap S)))))"
    by (simp add: get_low_stock_items_eq)
  also have "\<dots> = fst (get_low_stock_items S)"
    by (simp add: get_low_stock_items_eq sorted_sort_id)
  finally show ?thesis
    by (simp only: low_stock_heap_after [OF assms])
qed

subsection \<open>Stale entries\<close>

text \<open>
  The read does not depend on the heap being exact. Whatever entries the heap holds
  (for names that are gone, with quantities that are out of date, for items that are
  not below the threshold), as long as no two entries carry the same name and every
  item below the threshold has an entry, the result is exactly the items below the
  threshold, each once.
\<close>

lemma emit_names:
  "map name (map fst (concat (map (emit S) es))) = map snd (filter (\<lambda>e. emit S e \<noteq> []) es)"
proof (induction es)
  case Nil
  then show ?case by simp
next
  case (Cons e es)
  have "map name (map fst (emit S e)) = (if emit S e \<noteq> [] then [snd e] else [])"
    by (cases "map_of (items S) (snd e)") (simp_all add: emit_def)
  with Cons show ?case
    by simp
qed

lemma stale_entries_filtered:
  assumes "distinct (map snd (low_stock_heap S))"
    and "\<And>n d. map_of (items S) n = Some d \<Longrightarrow> quantity d < threshold S
           \<Longrightarrow> n \<in> snd ` set (low_stock_heap S)"
  shows "set (fst (get_low_stock_items S)) =
           {\<lparr>quantity = quantity d, price = price d, name = n\<rparr> | n d.
              map_of (items S) n = Some d \<and> quantity d < threshold S}" (is "?L = ?R")
    and "distinct (map name (fst (get_low_stock_items S)))"
proof -
  show "?L = ?R"
  proof
    show "?L \<subseteq> ?R"
      using low_stock_member [of _ S] by blast
    show "?R \<subseteq> ?L"
    proof
      fix r
      assume "r \<in> ?R"
      then obtain n d where r: "r = \<lparr>quantity = quantity d, price = price d, name = n\<rparr>"
        and d: "map_of (items S) n = Some d" and low: "quantity d < threshold S"
        by blast
      from assms(2) [OF d low] obtain q where "(q, n) \<in> set (sort (low_stock_heap S))"
        by auto
      moreover have "emit S (q, n) = [(r, (quantity d, n))]"
        by (simp add: emit_def d low r)
      ultimately have "(r, (quantity d, n)) \<in> set (concat (map (emit S) (sort (low_stock_heap S))))"
        by force
      then show "r \<in> ?L"
        by (force simp: get_low_stock_items_eq)
    qed
  qed
  have "mset (map snd (sort (low_stock_heap S))) = mset (map snd (low_stock_heap S))"
    by simp
  with assms(1) have "distinct (map snd (sort (low_stock_heap S)))"
    by (metis mset_eq_imp_distinct_iff)
  then have "distinct (map snd (filter (\<lambda>e. emit S e \<noteq> []) (sort (low_stock_heap S))))"
    by (rule distinct_map_filter)
  then show "distinct (map name (fst (get_low_stock_items S)))"
    by (simp only: get_low_stock_items_eq fst_conv emit_names)
qed

subsection \<open>Concrete runs\<close>

lemma init_empty: "init [] None = \<lparr>items = [], low_stock_heap = [], threshold = 10\<rparr>"
  by (simp add: init_def load_items_def)

lemma add_bolt:
  "add_item store_ok ''bolt'' 5 (1 / 10) (init [] None) =
     (Inr (True, ''Item added successfully''), bolt_state)"
  by (simp add: init_empty add_item_def store_ok_def heappush_def bolt_state_def)

lemma reachable_bolt: "reachable bolt_state"
  by (rule reachable_add [OF reachable_init add_bolt]) simp

lemma add_anchor_washer:
  "add_item store_ok ''washer'' 50 1
     (snd (add_item store_ok ''anchor'' 5 (1 / 5) bolt_state)) =
     (Inr (True, ''Item added successfully''), demo_state)"
  by (simp add: add_item_def store_ok_def heappush_def bolt_state_def demo_state_def)

lemma reachable_demo: "reachable demo_state"
proof -
  have "add_item store_ok ''anchor'' 5 (1 / 5) bolt_state =
          (Inr (True, ''Item added successfully''),
           snd (add_item store_ok ''anchor'' 5 (1 / 5) bolt_state))"
    by (simp add: add_item_def store_ok_def bolt_state_def)
  from reachable_add [OF reachable_bolt this] have
    "reachable (snd (add_item store_ok ''anchor'' 5 (1 / 5) bolt_state))" .
  from reachable_add [OF this add_anchor_washer] show ?thesis .
qed

lemma demo_low_stock:
  "get_low_stock_items demo_state =
     ([\<lparr>quantity = 5, price = 1 / 5, name = ''anchor''\<rparr>,
       \<lparr>quantity = 5, price = 1 / 10, name = ''bolt''\<rparr>],
      demo_state\<lparr>low_stock_heap := [(5, ''anchor''), (5, ''bolt'')]\<rparr>)"
  by (simp add: get_low_stock_items_eq demo_state_def emit_def)

subsection \<open>Failures of the store\<close>

text \<open>
  \<^verbatim>\<open>add_item\<close> and \<^verbatim>\<open>delete_item\<close> write to \<^verbatim>\<open>self.items\<close> and to the heap
  after the commit: when an exception of the store leaves them, the object is as it was.
\<close>

lemma add_item_raise_unchanged:
  assumes "add_item db n q p S = (Inl e, S')"
  shows "S' = S"
  using assms
  by (auto simp: add_item_def Let_def split: if_splits option.splits store_error.splits)

lemma delete_item_raise_unchanged:
  assumes "delete_item db n S = (Inl e, S')"
  shows "S' = S"
  using assms
  by (auto simp: delete_item_def split: if_splits option.splits)

text \<open>
  Claim C1: when the write to the persistent store raises, every mutating operation
  leaves the items, the heap and the threshold as they were before the call.

  \<^verbatim>\<open>update_item\<close> assigns \<^verbatim>\<open>self.items[name]['quantity']\<close> before it executes the
  \<^verbatim>\<open>UPDATE\<close>, and \<^verbatim>\<open>set_threshold\<close> assigns \<^verbatim>\<open>self.threshold\<close> before it opens
  the connection. On the object that holds the item \<open>bolt\<close> with quantity 5, an
  \<^verbatim>\<open>update_item("bolt", quantity=7)\<close> whose \<^verbatim>\<open>UPDATE\<close> raises leaves the quantity 7
  in \<^verbatim>\<open>self.items\<close> (and the heap entry at 5), and a \<^verbatim>\<open>set_threshold(25)\<close> on a
  store that is down leaves the threshold 25.
\<close>

theorem store_failure_changes_state:
  "update_item store_update_fails ''bolt'' (Some 7) None bolt_state =
     (Inl OperationalError, stale_state) \<and>
   items stale_state \<noteq> items bolt_state \<and>
   set_threshold store_down 25 bolt_state =
     (Inl OperationalError, bolt_state\<lparr>threshold := 25\<rparr>) \<and>
   threshold (bolt_state\<lparr>threshold := 25\<rparr>) \<noteq> threshold bolt_state"
  by (simp add: update_item_def set_threshold_def store_update_fails_def store_down_def
        bolt_state_def stale_state_def)

subsection \<open>Rejected calls\<close>

text \<open>
  Claim C6: when the name is already a key of \<^verbatim>\<open>self.items\<close>, \<^verbatim>\<open>add_item\<close> returns
  \<^verbatim>\<open>(False, "Item already exists")\<close>, whatever the store does, and the items, the
  heap and the threshold are unchanged.
\<close>

theorem add_item_existing:
  assumes "map_of (items S) n \<noteq> None"
  shows "add_item db n q p S = (Inr (False, ''Item already exists''), S)"
  using assms by (simp add: add_item_def)

theorem add_item_existing_witness:
  "map_of (items bolt_state) ''bolt'' \<noteq> None \<and>
   add_item store_ok ''bolt'' 9 2 bolt_state = (Inr (False, ''Item already exists''), bolt_state)"
proof -
  have h: "map_of (items bolt_state) ''bolt'' \<noteq> None"
    by (simp add: bolt_state_def)
  from h add_item_existing [OF h] show ?thesis
    by simp
qed

text \<open>
  Claim C7: when the name is not a key of \<^verbatim>\<open>self.items\<close>, \<^verbatim>\<open>update_item\<close> and
  \<^verbatim>\<open>delete_item\<close> each return \<^verbatim>\<open>(False, "Item not found")\<close>, whatever the store
  does, and the items, the heap and the threshold are unchanged.
\<close>

theorem missing_name_not_found:
  assumes "map_of (items S) n = None"
  shows "update_item db n quantity_arg price_arg S = (Inr (False, ''Item not found''), S) \<and>
         delete_item db n S = (Inr (False, ''Item not found''), S)"
  using assms by (simp add: update_item_def delete_item_def)

theorem missing_name_not_found_witness:
  "map_of (items bolt_state) ''nut'' = None \<and>
   update_item store_ok ''nut'' (Some 3) None bolt_state = (Inr (False, ''Item not found''), bolt_state) \<and>
   delete_item store_ok ''nut'' bolt_state = (Inr (False, ''Item not found''), bolt_state)"
proof -
  have h: "map_of (items bolt_state) ''nut'' = None"
    by (simp add: bolt_state_def)
  from h missing_name_not_found [OF h] show ?thesis
    by simp
qed

subsection \<open>Partial updates\<close>

lemma rebuild_heap_frame [simp]:
  "items (rebuild_heap S) = items S" "threshold (rebuild_heap S) = threshold S"
  by (simp_all add: rebuild_heap_eq)

lemma map_entry_other: "m \<noteq> k \<Longrightarrow> map_of (AList.map_entry k f al) m = map_of al m"
  by (simp add: AList.map_of_map_entry)

lemma map_entry_same:
  "map_of al k = Some v \<Longrightarrow> map_of (AList.map_entry k f al) k = Some (f v)"
  by (simp add: AList.map_of_map_entry)

text \<open>The items after \<^verbatim>\<open>update_item\<close> on an existing name: the fields written so far.\<close>

lemma update_item_items:
  assumes "map_of (items S) n = Some d" and "update_item db n qa pa S = (r, S')"
  shows "\<exists>f. items S' = AList.map_entry n f (items S) \<and>
           (qa = None \<longrightarrow> quantity (f d) = quantity d) \<and>
           (pa = None \<longrightarrow> price (f d) = price d) \<and>
           (r = Inr (True, ''Item updated successfully'') \<longrightarrow>
              quantity (f d) = (case qa of None \<Rightarrow> quantity d | Some q \<Rightarrow> q) \<and>
              price (f d) = (case pa of None \<Rightarrow> price d | Some p \<Rightarrow> p))"
proof -
  have id: "AList.map_entry n (\<lambda>d. d) al = al" for al :: "(string \<times> item) list"
    by (induction al) auto
  have comp: "AList.map_entry n g (AList.map_entry n f al) = AList.map_entry n (g \<circ> f) al"
    for f g and al :: "(string \<times> item) list"
    by (induction al) auto
  show ?thesis
  proof (cases "db Connect")
    case (Some e)
    with assms have "items S' = AList.map_entry n (\<lambda>d. d) (items S)" and "r = Inl e"
      by (auto simp: update_item_def id)
    then show ?thesis
      by (intro exI [of _ "\<lambda>d. d"]) simp
  next
    case connected: None
    show ?thesis
    proof (cases qa)
      case None
      show ?thesis
      proof (cases pa)
        case pNone: None
        from assms connected None pNone have "items S' = AList.map_entry n (\<lambda>d. d) (items S)"
          by (auto simp: update_item_def id split: option.splits)
        with None pNone show ?thesis
          by (intro exI [of _ "\<lambda>d. d"]) simp
      next
        case (Some p)
        from assms connected None Some
        have "items S' = AList.map_entry n (\<lambda>d. d\<lparr>price := p\<rparr>) (items S)"
          by (auto simp: update_item_def split: option.splits)
        with None Some show ?thesis
          by (intro exI [of _ "\<lambda>d. d\<lparr>price := p\<rparr>"]) simp
      qed
    next
      case (Some q)
      show ?thesis
      proof (cases pa)
        case None
        from assms connected None Some
        have "items S' = AList.map_entry n (\<lambda>d. d\<lparr>quantity := q\<rparr>) (items S)"
          by (auto simp: update_item_def split: option.splits)
        with None Some show ?thesis
          by (intro exI [of _ "\<lambda>d. d\<lparr>quantity := q\<rparr>"]) simp
      next
        case pSome: (Some p)
        from assms connected Some pSome consider
            (both) "items S' = AList.map_entry n (\<lambda>d. d\<lparr>quantity := q, price := p\<rparr>) (items S)"
          | (first) "items S' = AList.map_entry n (\<lambda>d. d\<lparr>quantity := q\<rparr>) (items S)"
              and "r \<noteq> Inr (True, ''Item updated successfully'')"
          by (auto simp: update_item_def comp comp_def split: option.splits)
        then show ?thesis
        proof cases
          case both
          with Some pSome show ?thesis
            by (intro exI [of _ "\<lambda>d. d\<lparr>quantity := q, price := p\<rparr>"]) simp
        next
          case first
          with Some pSome show ?thesis
            by (intro exI [of _ "\<lambda>d. d\<lparr>quantity := q\<rparr>"]) simp
        qed
      qed
    qed
  qed
qed

text \<open>
  Claim C8: for an existing name, \<^verbatim>\<open>update_item\<close> changes only the fields that were
  provided. Whatever the store does and whatever the call returns or raises, the names
  and their order are unchanged, the record of every other name is unchanged, the
  quantity is unchanged when no quantity is provided and the price is unchanged when no
  price is provided; when the call returns success, each provided field has the
  provided value.
\<close>

theorem update_item_frame:
  assumes "map_of (items S) n = Some d" and "update_item db n quantity_arg price_arg S = (r, S')"
  shows "map fst (items S') = map fst (items S) \<and>
         (\<forall>m. m \<noteq> n \<longrightarrow> map_of (items S') m = map_of (items S) m) \<and>
         (\<exists>d'. map_of (items S') n = Some d' \<and>
            (quantity_arg = None \<longrightarrow> quantity d' = quantity d) \<and>
            (price_arg = None \<longrightarrow> price d' = price d) \<and>
            (r = Inr (True, ''Item updated successfully'') \<longrightarrow>
               quantity d' = (case quantity_arg of None \<Rightarrow> quantity d | Some q \<Rightarrow> q) \<and>
               price d' = (case price_arg of None \<Rightarrow> price d | Some p \<Rightarrow> p)))"
proof -
  from update_item_items [OF assms] obtain f where f: "items S' = AList.map_entry n f (items S)"
    and q: "quantity_arg = None \<longrightarrow> quantity (f d) = quantity d"
    and p: "price_arg = None \<longrightarrow> price (f d) = price d"
    and ok: "r = Inr (True, ''Item updated successfully'') \<longrightarrow>
              quantity (f d) = (case quantity_arg of None \<Rightarrow> quantity d | Some q \<Rightarrow> q) \<and>
              price (f d) = (case price_arg of None \<Rightarrow> price d | Some p \<Rightarrow> p)"
    by blast
  have "map fst (items S') = map fst (items S)"
    by (simp add: f map_entry_keys)
  moreover have "\<forall>m. m \<noteq> n \<longrightarrow> map_of (items S') m = map_of (items S) m"
    by (simp add: f map_entry_other)
  moreover have "map_of (items S') n = Some (f d)"
    by (simp add: f map_entry_same [OF assms(1)])
  ultimately show ?thesis
    using q p ok by blast
qed

theorem update_item_frame_witness:
  "map_of (items demo_state) ''bolt'' = Some \<lparr>quantity = 5, price = 1 / 10\<rparr> \<and>
   update_item store_ok ''bolt'' (Some 20) None demo_state =
     (Inr (True, ''Item updated successfully''),
      demo_state\<lparr>items := [(''bolt'', \<lparr>quantity = 20, price = 1 / 10\<rparr>),
                            (''anchor'', \<lparr>quantity = 5, price = 1 / 5\<rparr>),
                            (''washer'', \<lparr>quantity = 50, price = 1\<rparr>)],
                  low_stock_heap := [(5, ''anchor'')]\<rparr>) \<and>
   map_of (items (snd (update_item store_ok ''bolt'' (Some 20) None demo_state))) ''bolt'' =
     Some \<lparr>quantity = 20, price = 1 / 10\<rparr> \<and>
   map_of (items (snd (update_item store_ok ''bolt'' (Some 20) None demo_state))) ''anchor'' =
     map_of (items demo_state) ''anchor''"
proof -
  have h: "map_of (items demo_state) ''bolt'' = Some \<lparr>quantity = 5, price = 1 / 10\<rparr>"
    by (simp add: demo_state_def)
  have run: "update_item store_ok ''bolt'' (Some 20) None demo_state =
     (Inr (True, ''Item updated successfully''),
      demo_state\<lparr>items := [(''bolt'', \<lparr>quantity = 20, price = 1 / 10\<rparr>),
                            (''anchor'', \<lparr>quantity = 5, price = 1 / 5\<rparr>),
                            (''washer'', \<lparr>quantity = 50, price = 1\<rparr>)],
                  low_stock_heap := [(5, ''anchor'')]\<rparr>)"
    by (simp add: update_item_def store_ok_def demo_state_def rebuild_heap_def heappush_def)
  from update_item_frame [OF h run] h run show ?thesis
    by (simp add: demo_state_def)
qed

text \<open>
  Claim C10: for an existing name, \<^verbatim>\<open>update_item\<close> called with neither a quantity nor
  a price, on a store whose connection and commit return, returns
  \<^verbatim>\<open>(True, "Item updated successfully")\<close>; it rebuilds the heap and leaves every item
  and the threshold unchanged. No test rejects the call without fields.
\<close>

theorem update_item_no_fields:
  assumes "map_of (items S) n = Some d" and "db Connect = None" and "db Commit = None"
  shows "update_item db n None None S =
           (Inr (True, ''Item updated successfully''), rebuild_heap S) \<and>
         items (rebuild_heap S) = items S \<and> threshold (rebuild_heap S) = threshold S"
  using assms by (simp add: update_item_def)

theorem update_item_no_fields_witness:
  "map_of (items demo_state) ''bolt'' = Some \<lparr>quantity = 5, price = 1 / 10\<rparr> \<and>
   store_ok Connect = None \<and> store_ok Commit = None \<and>
   update_item store_ok ''bolt'' None None demo_state =
     (Inr (True, ''Item updated successfully''), rebuild_heap demo_state) \<and>
   items (rebuild_heap demo_state) = items demo_state"
proof -
  have h: "map_of (items demo_state) ''bolt'' = Some \<lparr>quantity = 5, price = 1 / 10\<rparr>"
    by (simp add: demo_state_def)
  have c: "store_ok Connect = None" "store_ok Commit = None"
    by (simp_all add: store_ok_def)
  from update_item_no_fields [OF h c] h c show ?thesis
    by simp
qed

subsection \<open>The low-stock view after a write that raised\<close>

text \<open>
  \<^verbatim>\<open>update_item\<close> assigns the new quantity to \<^verbatim>\<open>self.items\<close> (line 103) before it
  executes the \<^verbatim>\<open>UPDATE\<close> and rebuilds the heap only after the commit. When the
  \<^verbatim>\<open>UPDATE\<close> raises, the object keeps the new quantity and the old heap.
\<close>

lemma failed_update_washer:
  "update_item store_update_fails ''washer'' (Some 3) None demo_state =
     (Inl OperationalError, hidden_state)"
  by (simp add: update_item_def store_update_fails_def demo_state_def hidden_state_def)

lemma reachable_hidden: "reachable hidden_state"
  by (rule reachable_update [OF reachable_demo failed_update_washer])

lemma hidden_low_stock:
  "get_low_stock_items hidden_state =
     ([\<lparr>quantity = 5, price = 1 / 5, name = ''anchor''\<rparr>,
       \<lparr>quantity = 5, price = 1 / 10, name = ''bolt''\<rparr>],
      hidden_state\<lparr>low_stock_heap := [(5, ''anchor''), (5, ''bolt'')]\<rparr>)"
  by (simp add: get_low_stock_items_eq hidden_state_def emit_def)

lemma add_anchor_bolt:
  "add_item store_ok ''bolt'' 5 (1 / 10)
     (snd (add_item store_ok ''anchor'' 1 (1 / 5) (init [] None))) =
     (Inr (True, ''Item added successfully''), pair_state)"
  by (simp add: init_empty add_item_def store_ok_def heappush_def pair_state_def)

lemma reachable_pair: "reachable pair_state"
proof -
  have "reachable (init [] None)"
    by (rule reachable_init) simp
  then have "reachable (snd (add_item store_ok ''anchor'' 1 (1 / 5) (init [] None)))"
    by (rule reachable_add [OF _ surjective_pairing])
  then show ?thesis
    by (rule reachable_add [OF _ add_anchor_bolt])
qed

lemma failed_update_anchor:
  "update_item store_update_fails ''anchor'' (Some 8) None pair_state =
     (Inl OperationalError, unordered_state)"
  by (simp add: update_item_def store_update_fails_def pair_state_def unordered_state_def)

lemma reachable_unordered: "reachable unordered_state"
  by (rule reachable_update [OF reachable_pair failed_update_anchor])

lemma unordered_low_stock:
  "get_low_stock_items unordered_state =
     ([\<lparr>quantity = 8, price = 1 / 5, name = ''anchor''\<rparr>,
       \<lparr>quantity = 5, price = 1 / 10, name = ''bolt''\<rparr>],
      unordered_state\<lparr>low_stock_heap := [(8, ''anchor''), (5, ''bolt'')]\<rparr>)"
  by (simp add: get_low_stock_items_eq unordered_state_def emit_def)

lemma unordered_second_read:
  "get_low_stock_items (unordered_state\<lparr>low_stock_heap := [(8, ''anchor''), (5, ''bolt'')]\<rparr>) =
     ([\<lparr>quantity = 5, price = 1 / 10, name = ''bolt''\<rparr>,
       \<lparr>quantity = 8, price = 1 / 5, name = ''anchor''\<rparr>],
      unordered_state\<lparr>low_stock_heap := [(5, ''bolt''), (8, ''anchor'')]\<rparr>)"
  by (simp add: get_low_stock_items_eq unordered_state_def emit_def)

text \<open>
  Claim C2: on every state reachable by calls of the mutating operations,
  \<^verbatim>\<open>get_low_stock_items\<close> returns exactly the items whose quantity is below the
  threshold.

  The claim holds on the consistent states (\<open>low_stock_set\<close>), and with stale entries
  in the heap as long as every item below the threshold has an entry
  (\<open>stale_entries_filtered\<close>). It fails after an \<^verbatim>\<open>update_item\<close> that raised: the state
  \<^const>\<open>hidden_state\<close> is reachable, its item \<open>washer\<close> has the quantity 3 below the
  threshold 10, and the read returns \<open>anchor\<close> and \<open>bolt\<close> only.
\<close>

theorem low_stock_misses_item:
  "reachable hidden_state \<and>
   map_of (items hidden_state) ''washer'' = Some \<lparr>quantity = 3, price = 1\<rparr> \<and>
   quantity \<lparr>quantity = 3, price = 1\<rparr> < threshold hidden_state \<and>
   fst (get_low_stock_items hidden_state) =
     [\<lparr>quantity = 5, price = 1 / 5, name = ''anchor''\<rparr>,
      \<lparr>quantity = 5, price = 1 / 10, name = ''bolt''\<rparr>] \<and>
   \<lparr>quantity = 3, price = 1, name = ''washer''\<rparr> \<notin> set (fst (get_low_stock_items hidden_state))"
proof -
  have "map_of (items hidden_state) ''washer'' = Some \<lparr>quantity = 3, price = 1\<rparr>"
    and "quantity \<lparr>quantity = 3, price = 1\<rparr> < threshold hidden_state"
    by (simp_all add: hidden_state_def)
  with reachable_hidden show ?thesis
    by (simp add: hidden_low_stock)
qed

text \<open>
  Claim C4: on every reachable state, every item whose quantity is below the threshold
  has an entry for its name in the heap.

  The claim holds on the consistent states (\<open>low_stock_complete\<close>). It fails after an
  \<^verbatim>\<open>update_item\<close> that raised: in the reachable state \<^const>\<open>hidden_state\<close> the item
  \<open>washer\<close> is below the threshold and the heap has no entry for it, and this is still
  so in the state that a completed \<^verbatim>\<open>get_low_stock_items\<close> leaves.
\<close>

theorem low_item_without_entry:
  "reachable hidden_state \<and>
   reachable (snd (get_low_stock_items hidden_state)) \<and>
   map_of (items (snd (get_low_stock_items hidden_state))) ''washer'' =
     Some \<lparr>quantity = 3, price = 1\<rparr> \<and>
   quantity \<lparr>quantity = 3, price = 1\<rparr> < threshold (snd (get_low_stock_items hidden_state)) \<and>
   ''washer'' \<notin> snd ` set (low_stock_heap hidden_state) \<and>
   ''washer'' \<notin> snd ` set (low_stock_heap (snd (get_low_stock_items hidden_state)))"
proof -
  have "reachable (snd (get_low_stock_items hidden_state))"
    by (rule reachable_list [OF reachable_hidden surjective_pairing])
  moreover have "''washer'' \<notin> snd ` set (low_stock_heap hidden_state)"
    by (simp add: hidden_state_def)
  moreover have "map_of (items (snd (get_low_stock_items hidden_state))) ''washer'' =
      Some \<lparr>quantity = 3, price = 1\<rparr>"
    and "quantity \<lparr>quantity = 3, price = 1\<rparr> < threshold (snd (get_low_stock_items hidden_state))"
    and "''washer'' \<notin> snd ` set (low_stock_heap (snd (get_low_stock_items hidden_state)))"
    by (simp_all add: hidden_low_stock) (simp_all add: hidden_state_def)
  ultimately show ?thesis
    using reachable_hidden by simp
qed

text \<open>
  Claim C5: the list returned by \<^verbatim>\<open>get_low_stock_items\<close> is ordered by quantity
  ascending, ties by name.

  The claim holds on the consistent states (\<open>low_stock_sorted\<close>). The entries are
  extracted in the order of the quantities in the heap and reported with the live
  quantities: after an \<^verbatim>\<open>update_item("anchor", quantity=8)\<close> that raised, the entry of
  \<open>anchor\<close> is still \<open>(1, anchor)\<close>, and the read returns \<open>anchor\<close> with quantity 8
  before \<open>bolt\<close> with quantity 5.
\<close>

theorem low_stock_not_ascending:
  "reachable unordered_state \<and>
   fst (get_low_stock_items unordered_state) =
     [\<lparr>quantity = 8, price = 1 / 5, name = ''anchor''\<rparr>,
      \<lparr>quantity = 5, price = 1 / 10, name = ''bolt''\<rparr>] \<and>
   \<not> sorted (map quantity (fst (get_low_stock_items unordered_state)))"
  using reachable_unordered by (simp add: unordered_low_stock)

text \<open>
  Claim C9: two calls of \<^verbatim>\<open>get_low_stock_items\<close> in a row return the same list.

  The claim holds on the consistent states (\<open>low_stock_twice\<close>). The first read
  replaces the heap by entries with the live quantities, so after an \<^verbatim>\<open>update_item\<close>
  that raised the second read extracts in another order: on \<^const>\<open>unordered_state\<close>
  the first read returns \<open>anchor\<close>, \<open>bolt\<close> and the second \<open>bolt\<close>, \<open>anchor\<close>.
\<close>

theorem low_stock_second_read_differs:
  "reachable unordered_state \<and>
   fst (get_low_stock_items unordered_state) =
     [\<lparr>quantity = 8, price = 1 / 5, name = ''anchor''\<rparr>,
      \<lparr>quantity = 5, price = 1 / 10, name = ''bolt''\<rparr>] \<and>
   fst (get_low_stock_items (snd (get_low_stock_items unordered_state))) =
     [\<lparr>quantity = 5, price = 1 / 10, name = ''bolt''\<rparr>,
      \<lparr>quantity = 8, price = 1 / 5, name = ''anchor''\<rparr>] \<and>
   fst (get_low_stock_items (snd (get_low_stock_items unordered_state))) \<noteq>
     fst (get_low_stock_items unordered_state)"
  using reachable_unordered by (simp add: unordered_low_stock unordered_second_read)

subsection \<open>The validity test of the loop\<close>

lemma stale_low_stock:
  "get_low_stock_items stale_state =
     ([\<lparr>quantity = 7, price = 1 / 10, name = ''bolt''\<rparr>],
      stale_state\<lparr>low_stock_heap := [(7, ''bolt'')]\<rparr>)"
  by (simp add: get_low_stock_items_eq stale_state_def emit_def)

text \<open>
  Claim C3, as stated: an extracted entry contributes to the result and is re-inserted
  only if its name is in the items, its quantity equals the live quantity and the live
  quantity is below the threshold. On the state whose item \<open>bolt\<close> has the live
  quantity 7 and whose heap holds the entry \<open>(5, bolt)\<close>, the entry contributes and is
  re-inserted (with the quantity 7), where the claim discards it.
\<close>

theorem drain_valid_spec_counterexample:
  "low_stock_heap stale_state = [(5, ''bolt'')] \<and>
   map_of (items stale_state) ''bolt'' = Some \<lparr>quantity = 7, price = 1 / 10\<rparr> \<and>
   get_low_stock_items stale_state =
     ([\<lparr>quantity = 7, price = 1 / 10, name = ''bolt''\<rparr>],
      stale_state\<lparr>low_stock_heap := [(7, ''bolt'')]\<rparr>) \<and>
   drainValid_spec stale_state = ([], stale_state\<lparr>low_stock_heap := []\<rparr>) \<and>
   get_low_stock_items stale_state \<noteq> drainValid_spec stale_state"
proof -
  have spec: "drainValid_spec stale_state = ([], stale_state\<lparr>low_stock_heap := []\<rparr>)"
    by (simp add: drainValid_spec_def emit_spec_def stale_state_def)
  have "get_low_stock_items stale_state \<noteq> drainValid_spec stale_state"
    by (simp add: stale_low_stock spec)
  moreover have "low_stock_heap stale_state = [(5, ''bolt'')]"
    and "map_of (items stale_state) ''bolt'' = Some \<lparr>quantity = 7, price = 1 / 10\<rparr>"
    by (simp_all add: stale_state_def)
  ultimately show ?thesis
    using stale_low_stock spec by simp
qed

text \<open>
  Claim C3, amended: for every state, \<^verbatim>\<open>get_low_stock_items\<close> extracts the entries in
  ascending order; an entry \<open>(quantity, name)\<close> is kept exactly when the name is in the
  items and the live quantity of the item is below the threshold, and the quantity of
  the entry is not looked at. A kept entry contributes the live record of the item to
  the result and is re-inserted with the live quantity; every other entry is dropped.
\<close>

theorem drain_valid_entries:
  "get_low_stock_items S =
     (let kept = concat (map
                   (\<lambda>(q, n). case map_of (items S) n of
                                None \<Rightarrow> []
                              | Some d \<Rightarrow>
                                  if quantity d < threshold S
                                  then [(\<lparr>quantity = quantity d, price = price d, name = n\<rparr>,
                                         (quantity d, n))]
                                  else [])
                   (sort (low_stock_heap S)))
      in (map fst kept, S\<lparr>low_stock_heap := heapify (map snd kept)\<rparr>))"
proof -
  have "emit S = (\<lambda>(q, n). case map_of (items S) n of
                                None \<Rightarrow> []
                              | Some d \<Rightarrow>
                                  if quantity d < threshold S
                                  then [(\<lparr>quantity = quantity d, price = price d, name = n\<rparr>,
                                         (quantity d, n))]
                                  else [])"
    by (auto simp: emit_def fun_eq_iff split: option.splits)
  then show ?thesis
    by (simp add: get_low_stock_items_eq heapify_def Let_def)
qed

theorem drain_valid_entries_witness:
  "get_low_stock_items (stale_state\<lparr>low_stock_heap := [(5, ''bolt''), (3, ''nut''), (5, ''bolt'')],
                                     threshold := 7\<rparr>) =
     ([], stale_state\<lparr>low_stock_heap := [], threshold := 7\<rparr>) \<and>
   get_low_stock_items (stale_state\<lparr>low_stock_heap := [(9, ''bolt''), (3, ''nut'')]\<rparr>) =
     ([\<lparr>quantity = 7, price = 1 / 10, name = ''bolt''\<rparr>],
      stale_state\<lparr>low_stock_heap := [(7, ''bolt'')]\<rparr>)"
  using drain_valid_entries [of "stale_state\<lparr>low_stock_heap := [(5, ''bolt''), (3, ''nut''), (5, ''bolt'')],
                                     threshold := 7\<rparr>"]
    drain_valid_entries [of "stale_state\<lparr>low_stock_heap := [(9, ''bolt''), (3, ''nut'')]\<rparr>"]
  by (simp add: stale_state_def heapify_def)

end
